theory Spec2Isabelle
  imports Main
begin

section \<open>The image-processing backend (compute/web-process-image.go)\<close>

text \<open>
  The Go program has three parts: an admission handler that parses an HTTP form and
  offers the parsed request to a buffered channel without blocking, a pool of workers
  that each loop over the channel and run fetch, stage, transform and upload, and an
  HTTP transport that retries a call on a fixed set of status codes.  Each part is
  embedded below as HOL functions; the operating system, the storage client and the
  wrapped transport are parameters that say what each call returned.
\<close>

subsection \<open>Constants\<close>

definition NumImageProcessors :: nat where
  "NumImageProcessors = 2"

definition ImageProcessQueueSize :: nat where
  "ImageProcessQueueSize = 50"

definition ThumbnailSuffix :: string where
  "ThumbnailSuffix = ''-t''"

subsection \<open>Standard-library functions used by the request parser\<close>

text \<open>
  \<^verbatim>\<open>path.Split\<close> cuts a path right after its last slash: the directory keeps the
  slash, the file is what follows; without a slash the directory is empty.
\<close>

definition path_Split :: "string \<Rightarrow> string \<times> string" where
  "path_Split p =
     (let file = rev (takeWhile (\<lambda>c. c \<noteq> CHR ''/'') (rev p))
      in (take (length p - length file) p, file))"

text \<open>\<^verbatim>\<open>strings.Trim(s, "/")\<close> drops every leading and every trailing slash.\<close>

definition strings_Trim :: "string \<Rightarrow> string" where
  "strings_Trim s =
     rev (dropWhile (\<lambda>c. c = CHR ''/'') (rev (dropWhile (\<lambda>c. c = CHR ''/'') s)))"

text \<open>
  \<^verbatim>\<open>filepath.Ext\<close> walks the path from its last byte towards the front, stops at a
  path separator, and returns the suffix that starts at the first dot it meets.  The
  scan below takes the reversed path and collects the bytes it has passed.
\<close>

fun Ext_scan :: "string \<Rightarrow> string \<Rightarrow> string" where
  "Ext_scan [] passed = []"
| "Ext_scan (c # cs) passed =
     (if c = CHR ''/'' then []
      else if c = CHR ''.'' then c # passed
      else Ext_scan cs (c # passed))"

definition filepath_Ext :: "string \<Rightarrow> string" where
  "filepath_Ext p = Ext_scan (rev p) []"

text \<open>
  \<^verbatim>\<open>strings.Join(elems, "")\<close> with the empty separator is concatenation.
\<close>

definition strings_Join :: "string list \<Rightarrow> string" where
  "strings_Join elems = concat elems"

text \<open>
  The parsed form of an HTTP request maps a field name to its values;
  \<^verbatim>\<open>FormValue\<close> is the first value, or the empty string when the field is absent.
\<close>

type_synonym form = "string \<rightharpoonup> string list"

definition FormValue :: "form \<Rightarrow> string \<Rightarrow> string" where
  "FormValue f k = (case f k of None \<Rightarrow> [] | Some [] \<Rightarrow> [] | Some (v # _) \<Rightarrow> v)"

subsection \<open>Request construction\<close>

record processImageReq =
  sourceBucket :: string
  filename :: string
  saveToBucket :: string
  saveToFilename :: string

definition getProcessImageReq :: "form \<Rightarrow> string + processImageReq" where
  "getProcessImageReq r =
     (let objectPath = FormValue r ''id'' in
      if objectPath = [] then Inl ''Request did not provide image id.''
      else
        let (dir, file) = path_Split objectPath;
            bucket = strings_Trim dir;
            saveTo = FormValue r ''save-to'';
            extension = filepath_Ext file;
            name = take (length file - length extension) file;
            filenameElements = [name, ThumbnailSuffix, extension]
        in Inr \<lparr> sourceBucket = bucket, filename = file,
                 saveToBucket = saveTo,
                 saveToFilename = strings_Join filenameElements \<rparr>)"

subsection \<open>Admission handler\<close>

text \<open>
  The channel is a first-in first-out buffer with a fixed capacity, created with a
  capacity of at least one (\<^verbatim>\<open>ImageProcessQueueSize\<close> is 50).  The handler's
  \<^verbatim>\<open>select\<close> has a \<^verbatim>\<open>default\<close> branch, so the send is tried once: it goes through
  when the buffer has room and is given up otherwise.  Workers take from the front of the
  buffer in steps of their own; a worker that is already waiting takes the request at
  once, which is the send followed by that worker's receive.  A channel of capacity zero
  has no buffer and is not covered by this reading.
\<close>

record chan =
  buf :: "processImageReq list"
  cap :: nat

record response =
  status :: nat
  written :: string

definition ServeHTTP :: "string \<Rightarrow> form \<Rightarrow> chan \<Rightarrow> response \<times> chan" where
  "ServeHTTP hostname r c =
     (case getProcessImageReq r of
        Inl err \<Rightarrow> (\<lparr> status = 500, written = [] \<rparr>, c)
      | Inr req \<Rightarrow>
          if length (buf c) < cap c
          then (\<lparr> status = 200, written = ''hostname='' @ hostname \<rparr>,
                c\<lparr> buf := buf c @ [req] \<rparr>)
          else (\<lparr> status = 503, written = [] \<rparr>, c))"

text \<open>
  The constructor makes the channel; the workers it starts are the loop \<open>process\<close>
  below, each run on the requests it receives.
\<close>

definition NewImagemagickHandler :: "nat \<Rightarrow> chan" where
  "NewImagemagickHandler queueSize = \<lparr> buf = [], cap = queueSize \<rparr>"

text \<open>
  The specification's reading of a well-formed identifier, \<^verbatim>\<open>bucket/object-name\<close>:
  a slash with a non-empty bucket before it and a non-empty object name after it.
\<close>

definition spec_splits_into_bucket_and_object :: "string \<Rightarrow> bool" where
  "spec_splits_into_bucket_and_object s =
     (CHR ''/'' \<in> set s \<and> takeWhile (\<lambda>c. c \<noteq> CHR ''/'') s \<noteq> []
        \<and> tl (dropWhile (\<lambda>c. c \<noteq> CHR ''/'') s) \<noteq> [])"

subsection \<open>Log lines, panics and results\<close>

text \<open>
  Log lines are kept as data, not formatted.  A Go call either returns or panics; a
  panic that nobody recovers ends the process after the deferred calls have run.
\<close>

datatype logmsg =
    UnableToCopyRequest string
  | UnableToGetObject string string
  | UnableToDownload string string
  | UnableToReadBody string string
  | ReadBytes nat
  | ErrorWritingFile string
  | CouldNotTransform string
  | Converted string string
  | NowStartingUpload
  | ErrorOpening string
  | UnableToUpload string
  | CreatedObject string string
  | CouldNotProcess string string
  | ProcessingTook

datatype panicval = LogPanic logmsg | NilDereference

datatype 'a outcome = Returns 'a | Panics panicval

subsection \<open>Readers, requests and responses\<close>

text \<open>
  A reader is a stream: what has not been read yet, the error a read ends with (if any),
  and whether it has been closed.  \<^verbatim>\<open>ioutil.ReadAll\<close> empties the stream it reads.
\<close>

record reader =
  unread :: string
  readErr :: "string option"
  closed :: bool

definition ReadAll :: "reader \<Rightarrow> (string + string) \<times> reader" where
  "ReadAll rd =
     (if closed rd then (Inl ''read on closed body'', rd)
      else case readErr rd of
             None \<Rightarrow> (Inr (unread rd), rd\<lparr> unread := [] \<rparr>)
           | Some err \<Rightarrow> (Inl err, rd\<lparr> unread := [] \<rparr>))"

definition Close :: "reader \<Rightarrow> reader" where
  "Close rd = rd\<lparr> closed := True \<rparr>"

definition bytes_NewReader :: "string \<Rightarrow> reader" where
  "bytes_NewReader b = \<lparr> unread = b, readErr = None, closed = False \<rparr>"

record request =
  Method :: string
  URL :: string
  Header :: "(string \<times> string list) list"
  Body :: "reader option"

record httpResponse =
  StatusCode :: int
  RespBody :: reader

text \<open>
  \<^verbatim>\<open>http.NewRequest\<close> fails when the URL string does not parse; which strings parse
  is the parameter \<open>parses\<close>.
\<close>

definition http_NewRequest ::
  "(string \<Rightarrow> bool) \<Rightarrow> string \<Rightarrow> string \<Rightarrow> reader \<Rightarrow> string + request" where
  "http_NewRequest parses method urlStr rd =
     (if parses urlStr
      then Inr \<lparr> Method = method, URL = urlStr, Header = [], Body = Some rd \<rparr>
      else Inl ''parse error'')"

subsection \<open>Retrying transport\<close>

definition StatusForbidden :: int where "StatusForbidden = 403"
definition StatusInternalServerError :: int where "StatusInternalServerError = 500"
definition StatusBadGateway :: int where "StatusBadGateway = 502"
definition StatusServiceUnavailable :: int where "StatusServiceUnavailable = 503"
definition StatusGatewayTimeout :: int where "StatusGatewayTimeout = 504"

definition retryableCodes :: "int \<rightharpoonup> bool" where
  "retryableCodes =
     [StatusForbidden \<mapsto> True,
      StatusInternalServerError \<mapsto> True,
      StatusBadGateway \<mapsto> True,
      StatusServiceUnavailable \<mapsto> True,
      StatusGatewayTimeout \<mapsto> True]"

text \<open>Indexing a Go map of booleans with a key it does not hold gives false.\<close>

definition retryable :: "int \<Rightarrow> bool" where
  "retryable code = (case retryableCodes code of None \<Rightarrow> False | Some b \<Rightarrow> b)"

definition copyRequest :: "(string \<Rightarrow> bool) \<Rightarrow> request \<Rightarrow> string \<Rightarrow> request outcome" where
  "copyRequest parses req body =
     (case http_NewRequest parses (Method req) (URL req) (bytes_NewReader body) of
        Inl err \<Rightarrow> Panics (LogPanic (UnableToCopyRequest err))
      | Inr nreq \<Rightarrow>
          Returns (nreq\<lparr> Header := map (\<lambda>(k, vv). (k, take (length vv) vv)) (Header req) \<rparr>))"

text \<open>
  The wrapped transport is any function from its own state and a request to a response
  or an error.  The loop keeps the source's counter \<open>i\<close> and its variables \<open>req\<close>
  and \<open>(resp, err)\<close>; it also lists the requests it handed to the wrapped transport.
\<close>

record 's RetryTransport =
  RoundTripper :: "'s \<Rightarrow> request \<Rightarrow> (string + httpResponse) \<times> 's"
  maxTries :: int

type_synonym result = "httpResponse option \<times> string option"

function tryLoop ::
  "(string \<Rightarrow> bool) \<Rightarrow> 's RetryTransport \<Rightarrow> string \<Rightarrow> int \<Rightarrow> request \<Rightarrow> result \<Rightarrow> 's
     \<Rightarrow> request list \<Rightarrow> result outcome \<times> 's \<times> request list" where
  "tryLoop parses t body i req res s sent =
     (if i < maxTries t then
        (case (if i \<noteq> 0 then copyRequest parses req body else Returns req) of
           Panics p \<Rightarrow> (Panics p, s, sent)
         | Returns req' \<Rightarrow>
             (case RoundTripper t s req' of
                (Inl err, s') \<Rightarrow>
                  tryLoop parses t body (i + 1) req' (None, Some err) s' (sent @ [req'])
              | (Inr resp, s') \<Rightarrow>
                  if \<not> retryable (StatusCode resp)
                  then (Returns (Some resp, None), s', sent @ [req'])
                  else tryLoop parses t body (i + 1) req'
                         (Some (resp\<lparr> RespBody := Close (RespBody resp) \<rparr>), None)
                         s' (sent @ [req'])))
      else (Returns res, s, sent))"
  by pat_completeness auto
termination
  by (relation "measure (\<lambda>(parses, t, body, i, req, res, s, sent). nat (maxTries t - i))") auto

declare tryLoop.simps [simp del]

definition RoundTrip ::
  "(string \<Rightarrow> bool) \<Rightarrow> 's RetryTransport \<Rightarrow> request \<Rightarrow> 's
     \<Rightarrow> result outcome \<times> 's \<times> request list" where
  "RoundTrip parses t req s =
     (case Body req of
        None \<Rightarrow> tryLoop parses t [] 0 req (None, None) s []
      | Some rd \<Rightarrow>
          (case ReadAll rd of
             (Inl err, rd') \<Rightarrow> (Returns (None, Some err), s, [])
           | (Inr body, rd') \<Rightarrow>
               tryLoop parses t body 0 (req\<lparr> Body := Some rd' \<rparr>) (None, None) s []))"

text \<open>
  A wrapped transport that plays back a fixed list of outcomes, one per call, whatever
  the request is: the way the claims speak about what the attempts yield.
\<close>

definition scripted ::
  "(string + httpResponse) list \<Rightarrow> request
     \<Rightarrow> (string + httpResponse) \<times> (string + httpResponse) list" where
  "scripted script req =
     (case script of [] \<Rightarrow> (Inl ''no outcome left'', []) | x # xs \<Rightarrow> (x, xs))"

text \<open>The bytes an attempt can still send: what is unread in the request's body.\<close>

definition carried :: "request \<Rightarrow> string" where
  "carried req = (case Body req of None \<Rightarrow> [] | Some rd \<Rightarrow> unread rd)"

text \<open>
  Names for what the loop builds: the request as \<^verbatim>\<open>copyRequest\<close> rebuilds it, the
  request after its body has been read to the end, the request that iteration \<open>i\<close>
  sends, and a response after \<^verbatim>\<open>resp.Body.Close()\<close>.
\<close>

definition rebuilt :: "request \<Rightarrow> string \<Rightarrow> request" where
  "rebuilt req body = req\<lparr> Body := Some (bytes_NewReader body) \<rparr>"

definition drained :: "request \<Rightarrow> request" where
  "drained req = (case Body req of None \<Rightarrow> req
                  | Some rd \<Rightarrow> req\<lparr> Body := Some (rd\<lparr> unread := [] \<rparr>) \<rparr>)"

definition attempt :: "int \<Rightarrow> request \<Rightarrow> string \<Rightarrow> request" where
  "attempt i req body = (if i \<noteq> 0 then rebuilt req body else req)"

definition closeBody :: "httpResponse \<Rightarrow> httpResponse" where
  "closeBody resp = resp\<lparr> RespBody := Close (RespBody resp) \<rparr>"

subsection \<open>Worker\<close>

text \<open>
  What a worker does is listed as events, in order.  The world record says what each
  outside call returned while one request was processed: the storage client, the
  download, the local disk and the conversion tool.  The storage client returns no
  object together with an error, so a failed call leaves a nil pointer behind.
\<close>

datatype event =
    ObjectsGet string string
  | ClientGet string
  | CloseBody
  | WriteFile string
  | Exec "string list"
  | OpenFile string
  | CloseFile string
  | ObjectsInsert string string
  | Remove string
  | Log logmsg

record storageObject =
  Name :: string
  MediaLink :: string
  SelfLink :: string

record world =
  objectsGetDo :: "string + storageObject"
  clientGet :: "string + httpResponse"
  writeFile :: "string option"
  combinedOutput :: "string \<times> string option"
  converted :: "string option"
  osOpen :: "string option"
  objectsInsertDo :: "string + storageObject"

type_synonym filesys = "string \<rightharpoonup> string"

definition getImageBytes :: "world \<Rightarrow> string \<Rightarrow> string \<Rightarrow> string outcome \<times> event list" where
  "getImageBytes w bucket fname =
     (case objectsGetDo w of
        Inl err \<Rightarrow>
          (Panics (LogPanic (UnableToGetObject fname err)),
           [ObjectsGet bucket fname, Log (UnableToGetObject fname err)])
      | Inr obj \<Rightarrow>
          (case clientGet w of
             Inl err \<Rightarrow>
               (Panics (LogPanic (UnableToDownload (MediaLink obj) err)),
                [ObjectsGet bucket fname, ClientGet (MediaLink obj),
                 Log (UnableToDownload (MediaLink obj) err)])
           | Inr resp \<Rightarrow>
               (case fst (ReadAll (RespBody resp)) of
                  Inl err \<Rightarrow>
                    (Panics (LogPanic (UnableToReadBody (MediaLink obj) err)),
                     [ObjectsGet bucket fname, ClientGet (MediaLink obj),
                      Log (UnableToReadBody (MediaLink obj) err), CloseBody])
                | Inr b \<Rightarrow>
                    (Returns b,
                     [ObjectsGet bucket fname, ClientGet (MediaLink obj), CloseBody]))))"

definition thumbnailCommand :: "string \<Rightarrow> string \<Rightarrow> string list" where
  "thumbnailCommand inp out = [''convert'', inp, ''-thumbnail'', ''100x100'', out]"

definition intenseCommand :: "string \<Rightarrow> string \<Rightarrow> string list" where
  "intenseCommand inp out =
     [''convert'', inp, ''-auto-level'', ''-auto-orient'', ''-antialias'', ''-auto-gamma'',
      ''-contrast'', ''-despeckle'', ''-thumbnail'', ''100x100'', out]"

definition moderateCommand :: "string \<Rightarrow> string \<Rightarrow> string list" where
  "moderateCommand inp out =
     [''convert'', inp, ''-auto-orient'', ''-antialias'', ''-contrast'', ''-thumbnail'',
      ''100x100'', out]"

text \<open>
  Deferred calls run last-in first-out when the function returns and also when it
  panics.  The list holds the most recent deferral first.  \<^verbatim>\<open>os.Remove\<close> deletes the
  named file; the source ignores its result, and so does the model.
\<close>

datatype deferred = DeferRemove string | DeferClose string

fun runDeferred :: "deferred list \<Rightarrow> filesys \<Rightarrow> filesys \<times> event list" where
  "runDeferred [] fs = (fs, [])"
| "runDeferred (DeferRemove n # ds) fs =
     (case runDeferred ds (fs(n := None)) of (fs', evs) \<Rightarrow> (fs', Remove n # evs))"
| "runDeferred (DeferClose n # ds) fs =
     (case runDeferred ds fs of (fs', evs) \<Rightarrow> (fs', CloseFile n # evs))"

definition leave ::
  "'a outcome \<Rightarrow> deferred list \<Rightarrow> filesys \<Rightarrow> event list \<Rightarrow> 'a outcome \<times> filesys \<times> event list" where
  "leave out ds fs evs = (case runDeferred ds fs of (fs', devs) \<Rightarrow> (out, fs', evs @ devs))"

definition processImage ::
  "processImageReq \<Rightarrow> world \<Rightarrow> filesys \<Rightarrow> string option outcome \<times> filesys \<times> event list" where
  "processImage r w fs =
     (case getImageBytes w (sourceBucket r) (filename r) of
        (Panics p, evs) \<Rightarrow> (Panics p, fs, evs)
      | (Returns b, evs) \<Rightarrow>
          let evs1 = evs @ [Log (ReadBytes (length b)), WriteFile (filename r)] in
          (case writeFile w of
             Some err \<Rightarrow>
               (Returns (Some err), fs, evs1 @ [Log (ErrorWritingFile (filename r))])
           | None \<Rightarrow>
               let fs1 = fs(filename r \<mapsto> b);
                   defers1 = [DeferRemove (filename r)];
                   cmd = moderateCommand (filename r) (saveToFilename r);
                   evs2 = evs1 @ [Exec cmd];
                   fs2 = (case converted w of
                            None \<Rightarrow> fs1
                          | Some b' \<Rightarrow> fs1(saveToFilename r \<mapsto> b'))
               in
               (case snd (combinedOutput w) of
                  Some err \<Rightarrow>
                    leave (Returns (Some err)) defers1 fs2
                      (evs2 @ [Log (CouldNotTransform (fst (combinedOutput w)))])
                | None \<Rightarrow>
                    let defers2 = DeferRemove (saveToFilename r) # defers1;
                        evs3 = evs2 @ [Log (Converted (filename r) (saveToFilename r)),
                                       Log NowStartingUpload,
                                       OpenFile (saveToFilename r)]
                    in
                    (case osOpen w of
                       Some err \<Rightarrow>
                         leave (Returns (Some err)) defers2 fs2
                           (evs3 @ [Log (ErrorOpening (saveToFilename r))])
                     | None \<Rightarrow>
                         let defers3 = DeferClose (saveToFilename r) # defers2;
                             evs4 = evs3 @ [ObjectsInsert (saveToBucket r) (saveToFilename r)]
                         in
                         (case objectsInsertDo w of
                            Inl err \<Rightarrow>
                              leave (Panics NilDereference) defers3 fs2
                                (evs4 @ [Log (UnableToUpload (saveToFilename r))])
                          | Inr res \<Rightarrow>
                              leave (Returns None) defers3 fs2
                                (evs4 @ [Log (CreatedObject (Name res) (SelfLink res))]))))))"

text \<open>
  The worker's loop over the channel.  The list holds the requests the worker receives,
  each with the world it meets.  When the list is used up the worker waits on the
  channel; a panic leaves the loop and ends the process, so nothing after it is taken.
\<close>

datatype workerExit = AwaitingNext | ProcessDown panicval

fun process :: "(processImageReq \<times> world) list \<Rightarrow> filesys \<Rightarrow> workerExit \<times> filesys \<times> event list" where
  "process [] fs = (AwaitingNext, fs, [])"
| "process ((r, w) # q) fs =
     (case processImage r w fs of
        (Panics p, fs', evs) \<Rightarrow> (ProcessDown p, fs', evs)
      | (Returns err, fs', evs) \<Rightarrow>
          let logged = (case err of
                          None \<Rightarrow> []
                        | Some e \<Rightarrow> [Log (CouldNotProcess (saveToFilename r) e)])
                       @ [Log ProcessingTook]
          in (case process q fs' of (x, fs'', evs') \<Rightarrow> (x, fs'', evs @ logged @ evs')))"

text \<open>The fetch stage fails when any of its three calls fails.\<close>

definition fetchFails :: "world \<Rightarrow> bool" where
  "fetchFails w =
     (case objectsGetDo w of
        Inl err \<Rightarrow> True
      | Inr obj \<Rightarrow>
          (case clientGet w of
             Inl err \<Rightarrow> True
           | Inr resp \<Rightarrow> (case fst (ReadAll (RespBody resp)) of Inl err \<Rightarrow> True | Inr b \<Rightarrow> False)))"

definition isExec :: "event \<Rightarrow> bool" where
  "isExec e = (case e of Exec cmd \<Rightarrow> True | _ \<Rightarrow> False)"

definition isInsert :: "event \<Rightarrow> bool" where
  "isInsert e = (case e of ObjectsInsert b n \<Rightarrow> True | _ \<Rightarrow> False)"

subsection \<open>Example inputs\<close>

definition eiffel_form :: form where
  "eiffel_form = [''id'' \<mapsto> [''in-bucket/eiffel.jpg''], ''save-to'' \<mapsto> [''out-bucket'']]"

definition eiffel_req :: processImageReq where
  "eiffel_req = \<lparr> sourceBucket = ''in-bucket'', filename = ''eiffel.jpg'',
                  saveToBucket = ''out-bucket'', saveToFilename = ''eiffel-t.jpg'' \<rparr>"

definition photo_form :: form where
  "photo_form = [''id'' \<mapsto> [''in-bucket/photo''], ''save-to'' \<mapsto> [''out-bucket'']]"

definition bare_form :: form where
  "bare_form = [''id'' \<mapsto> [''photo.jpg'']]"

definition upload_req :: request where
  "upload_req = \<lparr> Method = ''POST'', URL = ''https://storage.example/upload'',
                  Header = [(''Content-Type'', [''image/jpeg''])],
                  Body = Some (bytes_NewReader ''abc'') \<rparr>"

definition busy_resp :: httpResponse where
  "busy_resp = \<lparr> StatusCode = 503, RespBody = bytes_NewReader ''busy'' \<rparr>"

definition ok_resp :: httpResponse where
  "ok_resp = \<lparr> StatusCode = 200, RespBody = bytes_NewReader ''done'' \<rparr>"

text \<open>The transport as \<^verbatim>\<open>NewImageProcessor\<close> configures it: five tries.\<close>

definition five_tries :: "(string + httpResponse) list RetryTransport" where
  "five_tries = \<lparr> RoundTripper = scripted, maxTries = 5 \<rparr>"

text \<open>Worlds a worker can meet: all calls succeed, or exactly one of them fails.\<close>

definition ok_world :: world where
  "ok_world =
     \<lparr> objectsGetDo = Inr \<lparr> Name = ''eiffel.jpg'', MediaLink = ''https://storage.example/dl/eiffel.jpg'',
                            SelfLink = ''https://storage.example/o/eiffel.jpg'' \<rparr>,
       clientGet = Inr \<lparr> StatusCode = 200, RespBody = bytes_NewReader ''JPEG'' \<rparr>,
       writeFile = None,
       combinedOutput = ([], None),
       converted = Some ''THUMB'',
       osOpen = None,
       objectsInsertDo = Inr \<lparr> Name = ''eiffel-t.jpg'', MediaLink = ''https://storage.example/dl/eiffel-t.jpg'',
                               SelfLink = ''https://storage.example/o/eiffel-t.jpg'' \<rparr> \<rparr>"

definition no_object_world :: world where
  "no_object_world = ok_world\<lparr> objectsGetDo := Inl ''googleapi: Error 404'' \<rparr>"

definition no_download_world :: world where
  "no_download_world = ok_world\<lparr> clientGet := Inl ''connection refused'' \<rparr>"

definition convert_fails_world :: world where
  "convert_fails_world =
     ok_world\<lparr> combinedOutput := (''convert: no decode delegate'', Some ''exit status 1''),
               converted := None \<rparr>"

definition upload_fails_world :: world where
  "upload_fails_world = ok_world\<lparr> objectsInsertDo := Inl ''googleapi: Error 503'' \<rparr>"

section \<open>Properties of request construction\<close>

lemma path_Split_last_slash:
  assumes "CHR ''/'' \<notin> set name"
  shows "path_Split (b @ CHR ''/'' # name) = (b @ [CHR ''/''], name)"
proof -
  have "takeWhile (\<lambda>c. c \<noteq> CHR ''/'') (rev name @ CHR ''/'' # rev b) = rev name"
    using assms by (auto simp: takeWhile_tail)
  then show ?thesis
    by (simp add: path_Split_def)
qed

lemma path_Split_file_no_slash: "CHR ''/'' \<notin> set (snd (path_Split p))"
proof -
  have "set (takeWhile (\<lambda>c. c \<noteq> CHR ''/'') (rev p)) \<subseteq> {c. c \<noteq> CHR ''/''}"
    by (auto dest: set_takeWhileD)
  then show ?thesis
    by (auto simp: path_Split_def)
qed

lemma Ext_scan_no_dot: "CHR ''.'' \<notin> set cs \<Longrightarrow> Ext_scan cs passed = []"
  by (induction cs arbitrary: passed) auto

lemma Ext_scan_dot:
  "CHR ''.'' \<notin> set cs \<Longrightarrow> CHR ''/'' \<notin> set cs \<Longrightarrow>
   Ext_scan (cs @ CHR ''.'' # rest) passed = CHR ''.'' # rev cs @ passed"
  by (induction cs arbitrary: passed) auto

lemma filepath_Ext_no_dot: "CHR ''.'' \<notin> set p \<Longrightarrow> filepath_Ext p = []"
  by (simp add: filepath_Ext_def Ext_scan_no_dot)

lemma filepath_Ext_last_dot:
  "CHR ''.'' \<notin> set e \<Longrightarrow> CHR ''/'' \<notin> set e \<Longrightarrow>
   filepath_Ext (base @ CHR ''.'' # e) = CHR ''.'' # e"
  using Ext_scan_dot [of "rev e" "rev base" "[]"]
  by (simp add: filepath_Ext_def)

lemma getProcessImageReq_filename_no_slash:
  "getProcessImageReq r = Inr req \<Longrightarrow> CHR ''/'' \<notin> set (filename req)"
  using path_Split_file_no_slash [of "FormValue r ''id''"]
  by (auto simp: getProcessImageReq_def Let_def split: if_splits prod.splits)

lemma getProcessImageReq_saveToFilename:
  "getProcessImageReq r = Inr req \<Longrightarrow>
   saveToFilename req =
     take (length (filename req) - length (filepath_Ext (filename req))) (filename req)
       @ ThumbnailSuffix @ filepath_Ext (filename req)"
  by (auto simp: getProcessImageReq_def Let_def strings_Join_def
           split: if_splits prod.splits)

lemma getProcessImageReq_ok_iff:
  "(\<exists>req. getProcessImageReq r = Inr req) = (FormValue r ''id'' \<noteq> [])"
  by (auto simp: getProcessImageReq_def Let_def split: prod.splits)

lemma eiffel_parses: "getProcessImageReq eiffel_form = Inr eiffel_req"
  by (simp add: getProcessImageReq_def eiffel_form_def eiffel_req_def FormValue_def
      path_Split_def strings_Trim_def filepath_Ext_def ThumbnailSuffix_def strings_Join_def
      Let_def)

lemma path_Split_no_slash:
  assumes "CHR ''/'' \<notin> set name"
  shows "path_Split name = ([], name)"
proof -
  have tw: "takeWhile (\<lambda>c. c \<noteq> CHR ''/'') (rev name) = rev name"
    using assms by (auto intro: takeWhile_eq_all_conv [THEN iffD2])
  show ?thesis
    unfolding path_Split_def Let_def tw by simp
qed

lemma path_Split_at_prefix:
  assumes "CHR ''/'' \<notin> set name" and "pre = [] \<or> last pre = CHR ''/''"
  shows "path_Split (pre @ name) = (pre, name)"
proof (cases "pre = []")
  case True
  with assms(1) show ?thesis by (simp add: path_Split_no_slash)
next
  case False
  with assms(2) obtain b where "pre = b @ [CHR ''/'']"
    by (metis append_butlast_last_id)
  with path_Split_last_slash [OF assms(1), of b] show ?thesis by simp
qed

text \<open>
  Claim C6.  Let the \<^verbatim>\<open>id\<close> field be a prefix that is empty or ends in a slash,
  followed by an object name \<^verbatim>\<open>base.ext\<close> in which neither part has a slash and the
  extension has no dot.  Then request construction succeeds, the object name is
  \<^verbatim>\<open>base.ext\<close>, and the destination name is the base, then \<^verbatim>\<open>-t\<close>, then the dot and
  the extension.  The destination name is a function of the \<^verbatim>\<open>id\<close> field alone: every
  form with the same \<^verbatim>\<open>id\<close> gives this name.
\<close>

theorem destination_name_with_extension:
  assumes "FormValue r ''id'' = pre @ base @ CHR ''.'' # e"
    and "pre = [] \<or> last pre = CHR ''/''"
    and "CHR ''/'' \<notin> set base"
    and "CHR ''/'' \<notin> set e"
    and "CHR ''.'' \<notin> set e"
  shows "getProcessImageReq r =
           Inr \<lparr> sourceBucket = strings_Trim pre, filename = base @ CHR ''.'' # e,
                 saveToBucket = FormValue r ''save-to'',
                 saveToFilename = base @ ''-t'' @ CHR ''.'' # e \<rparr>
         \<and> (\<forall>r' req'. getProcessImageReq r' = Inr req' \<and> FormValue r' ''id'' = FormValue r ''id''
               \<longrightarrow> saveToFilename req' = base @ ''-t'' @ CHR ''.'' # e)"
proof -
  have ns: "CHR ''/'' \<notin> set (base @ CHR ''.'' # e)"
    using assms(3,4) by simp
  have split: "path_Split (FormValue r ''id'') = (pre, base @ CHR ''.'' # e)"
    using path_Split_at_prefix [OF ns assms(2)] assms(1) by simp
  have ext: "filepath_Ext (base @ CHR ''.'' # e) = CHR ''.'' # e"
    using assms(4,5) by (simp add: filepath_Ext_last_dot)
  have ne: "FormValue r ''id'' \<noteq> []"
    using assms(1) by simp
  have eq: "getProcessImageReq r =
           Inr \<lparr> sourceBucket = strings_Trim pre, filename = base @ CHR ''.'' # e,
                 saveToBucket = FormValue r ''save-to'',
                 saveToFilename = base @ ''-t'' @ CHR ''.'' # e \<rparr>"
    using ne split ext
    by (simp add: getProcessImageReq_def ThumbnailSuffix_def strings_Join_def Let_def)
  have det: "saveToFilename req' = base @ ''-t'' @ CHR ''.'' # e"
    if "getProcessImageReq r' = Inr req'" and "FormValue r' ''id'' = FormValue r ''id''"
    for r' req'
    using that ne split ext
    by (auto simp: getProcessImageReq_def ThumbnailSuffix_def strings_Join_def Let_def)
  from eq det show ?thesis by blast
qed

theorem destination_name_with_extension_witness:
  "FormValue eiffel_form ''id'' = ''in-bucket/'' @ ''eiffel'' @ CHR ''.'' # ''jpg''
   \<and> last ''in-bucket/'' = CHR ''/''
   \<and> getProcessImageReq eiffel_form =
       Inr \<lparr> sourceBucket = ''in-bucket'', filename = ''eiffel.jpg'',
             saveToBucket = ''out-bucket'', saveToFilename = ''eiffel-t.jpg'' \<rparr>"
proof -
  have i: "FormValue eiffel_form ''id'' = ''in-bucket/'' @ ''eiffel'' @ CHR ''.'' # ''jpg''"
    by (simp add: eiffel_form_def FormValue_def)
  have p: "''in-bucket/'' = [] \<or> last ''in-bucket/'' = CHR ''/''"
    by simp
  have b: "CHR ''/'' \<notin> set ''eiffel''" and s: "CHR ''/'' \<notin> set ''jpg''"
    and d: "CHR ''.'' \<notin> set ''jpg''"
    by simp_all
  from destination_name_with_extension [OF i p b s d] i
  show ?thesis by (simp add: strings_Trim_def eiffel_form_def FormValue_def)
qed

text \<open>
  Claim C10.  For an identifier \<^verbatim>\<open>bucket/name\<close> whose name has neither a slash nor a
  dot, request construction succeeds, the object name is \<^verbatim>\<open>name\<close> and the
  destination name is \<^verbatim>\<open>name\<close> with \<^verbatim>\<open>-t\<close> appended.
\<close>

theorem destination_name_without_extension:
  assumes "FormValue r ''id'' = bucket @ CHR ''/'' # name"
    and "CHR ''/'' \<notin> set name"
    and "CHR ''.'' \<notin> set name"
  shows "getProcessImageReq r =
           Inr \<lparr> sourceBucket = strings_Trim (bucket @ ''/''), filename = name,
                 saveToBucket = FormValue r ''save-to'', saveToFilename = name @ ''-t'' \<rparr>"
  using assms
  by (simp add: getProcessImageReq_def path_Split_last_slash filepath_Ext_no_dot
      ThumbnailSuffix_def strings_Join_def)

theorem destination_name_without_extension_witness:
  "FormValue photo_form ''id'' = ''in-bucket'' @ CHR ''/'' # ''photo''
   \<and> CHR ''/'' \<notin> set ''photo'' \<and> CHR ''.'' \<notin> set ''photo''
   \<and> getProcessImageReq photo_form =
       Inr \<lparr> sourceBucket = ''in-bucket'', filename = ''photo'',
             saveToBucket = ''out-bucket'', saveToFilename = ''photo-t'' \<rparr>"
proof -
  have i: "FormValue photo_form ''id'' = ''in-bucket'' @ CHR ''/'' # ''photo''"
    by (simp add: photo_form_def FormValue_def)
  have s: "CHR ''/'' \<notin> set ''photo''" and d: "CHR ''.'' \<notin> set ''photo''"
    by simp_all
  from destination_name_without_extension [OF i s d] i
  show ?thesis by (simp add: strings_Trim_def photo_form_def FormValue_def)
qed

section \<open>Properties of admission\<close>

text \<open>
  Claim C1.  For a request that parses, the handler's answer depends on the occupancy of
  the channel only.  With a free slot the request is appended to the buffer, the status
  is 200 with the host name in the body, and the buffer is longer by one; with the buffer
  at capacity the status is 503 and the channel is unchanged.  The handler is a total
  function of the form and the channel: it answers at once in either case.  The channel
  has a buffer, that is, a capacity of at least one.
\<close>

theorem admission_decided_by_occupancy:
  assumes "getProcessImageReq r = Inr req" and "0 < cap c"
  shows "(length (buf c) < cap c \<longrightarrow>
            ServeHTTP hostname r c =
              (\<lparr> status = 200, written = ''hostname='' @ hostname \<rparr>, c\<lparr> buf := buf c @ [req] \<rparr>)
            \<and> length (buf (snd (ServeHTTP hostname r c))) = length (buf c) + 1
            \<and> cap (snd (ServeHTTP hostname r c)) = cap c)
       \<and> (cap c \<le> length (buf c) \<longrightarrow>
            ServeHTTP hostname r c = (\<lparr> status = 503, written = [] \<rparr>, c))"
  using assms by (simp add: ServeHTTP_def)

theorem admission_decided_by_occupancy_witness:
  "getProcessImageReq eiffel_form = Inr eiffel_req
   \<and> ServeHTTP ''vm-1'' eiffel_form \<lparr> buf = [], cap = 2 \<rparr>
       = (\<lparr> status = 200, written = ''hostname=vm-1'' \<rparr>, \<lparr> buf = [eiffel_req], cap = 2 \<rparr>)
   \<and> ServeHTTP ''vm-1'' eiffel_form \<lparr> buf = [eiffel_req, eiffel_req], cap = 2 \<rparr>
       = (\<lparr> status = 503, written = [] \<rparr>, \<lparr> buf = [eiffel_req, eiffel_req], cap = 2 \<rparr>)"
proof -
  have free: "0 < cap \<lparr> buf = [], cap = 2 \<rparr>"
    and full: "0 < cap \<lparr> buf = [eiffel_req, eiffel_req], cap = 2 \<rparr>"
    by simp_all
  from admission_decided_by_occupancy [OF eiffel_parses free, of "''vm-1''"]
       admission_decided_by_occupancy [OF eiffel_parses full, of "''vm-1''"]
       eiffel_parses
  show ?thesis by simp
qed

text \<open>
  Claim C8, as stated, fails.  The identifier \<^verbatim>\<open>photo.jpg\<close> has no slash, so it does
  not split into a bucket and an object name; the handler still admits it with status
  200 and queues a request whose source bucket is empty.
\<close>

theorem unsplittable_identifier_is_admitted:
  "\<not> spec_splits_into_bucket_and_object (FormValue bare_form ''id'')
   \<and> FormValue bare_form ''id'' \<noteq> []
   \<and> ServeHTTP ''vm-1'' bare_form (NewImagemagickHandler 50)
       = (\<lparr> status = 200, written = ''hostname=vm-1'' \<rparr>,
          \<lparr> buf = [\<lparr> sourceBucket = [], filename = ''photo.jpg'', saveToBucket = [],
                      saveToFilename = ''photo-t.jpg'' \<rparr>], cap = 50 \<rparr>)"
  by (simp add: spec_splits_into_bucket_and_object_def bare_form_def FormValue_def
      ServeHTTP_def NewImagemagickHandler_def getProcessImageReq_def
      path_Split_def strings_Trim_def filepath_Ext_def ThumbnailSuffix_def strings_Join_def
      Let_def)

text \<open>
  Claim C8, amended.  The handler answers 500 exactly when the \<^verbatim>\<open>id\<close> field is
  missing or empty, and then the channel is unchanged.
\<close>

theorem rejected_iff_identifier_empty:
  "(status (fst (ServeHTTP hostname r c)) = 500) = (FormValue r ''id'' = [])
   \<and> (FormValue r ''id'' = [] \<longrightarrow> snd (ServeHTTP hostname r c) = c)"
  by (auto simp: ServeHTTP_def getProcessImageReq_def Let_def split: prod.splits)

theorem rejected_iff_identifier_empty_witness:
  "FormValue [''save-to'' \<mapsto> [''out-bucket'']] ''id'' = []
   \<and> status (fst (ServeHTTP ''vm-1'' [''save-to'' \<mapsto> [''out-bucket'']]
                   (NewImagemagickHandler 50))) = 500
   \<and> snd (ServeHTTP ''vm-1'' [''save-to'' \<mapsto> [''out-bucket'']] (NewImagemagickHandler 50))
       = NewImagemagickHandler 50"
  using rejected_iff_identifier_empty
          [of "''vm-1''" "[''save-to'' \<mapsto> [''out-bucket'']]" "NewImagemagickHandler 50"]
  by (simp add: FormValue_def)

section \<open>Properties of the retrying transport\<close>

lemma retryable_iff:
  "retryable code = (code = 403 \<or> code = 500 \<or> code = 502 \<or> code = 503 \<or> code = 504)"
  by (simp add: retryable_def retryableCodes_def StatusForbidden_def
      StatusInternalServerError_def StatusBadGateway_def StatusServiceUnavailable_def
      StatusGatewayTimeout_def)

lemma copyRequest_parses:
  "parses (URL req) \<Longrightarrow> copyRequest parses req body = Returns (rebuilt req body)"
proof -
  have "map (\<lambda>(k, vv). (k, take (length vv) vv)) (Header req) = Header req"
    by (induction "Header req") (auto simp: map_idI)
  then show "parses (URL req) \<Longrightarrow> copyRequest parses req body = Returns (rebuilt req body)"
    by (simp add: copyRequest_def http_NewRequest_def rebuilt_def)
qed

lemma rebuilt_rebuilt [simp]: "rebuilt (rebuilt req body) body = rebuilt req body"
  by (simp add: rebuilt_def)

lemma URL_rebuilt [simp]: "URL (rebuilt req body) = URL req"
  by (simp add: rebuilt_def)

lemma carried_rebuilt [simp]: "carried (rebuilt req body) = body"
  by (simp add: carried_def rebuilt_def bytes_NewReader_def)

lemma copyRequest_Returns:
  "copyRequest parses req body = Returns nreq \<Longrightarrow> nreq = rebuilt req body"
  using copyRequest_parses [of parses req body]
  by (cases "parses (URL req)") (auto simp: copyRequest_def http_NewRequest_def)

lemma rebuilt_fields:
  "Method (rebuilt req body) = Method req \<and> URL (rebuilt req body) = URL req
   \<and> Header (rebuilt req body) = Header req"
  by (simp add: rebuilt_def)

lemma rebuilt_drained [simp]: "rebuilt (drained req) body = rebuilt req body"
  by (simp add: rebuilt_def drained_def split: option.splits)

lemma URL_drained [simp]: "URL (drained req) = URL req"
  by (simp add: drained_def split: option.splits)

lemma RoundTrip_enters_loop:
  assumes "Body req = None \<or> (\<exists>rd. Body req = Some rd \<and> \<not> closed rd \<and> readErr rd = None)"
  shows "RoundTrip parses t req s = tryLoop parses t (carried req) 0 (drained req) (None, None) s []"
  using assms by (auto simp: RoundTrip_def ReadAll_def carried_def drained_def)

lemma tryLoop_retry_step:
  assumes "RoundTripper t = scripted" and "parses (URL req)" and "i < maxTries t"
    and "retryable (StatusCode resp)"
  shows "tryLoop parses t body i req res (Inr resp # rest) sent =
         tryLoop parses t body (i + 1) (attempt i req body) (Some (closeBody resp), None) rest
           (sent @ [attempt i req body])"
  using assms
  by (subst tryLoop.simps) (simp add: copyRequest_parses scripted_def attempt_def closeBody_def)

lemma tryLoop_stop_step:
  assumes "RoundTripper t = scripted" and "parses (URL req)" and "i < maxTries t"
    and "\<not> retryable (StatusCode resp)"
  shows "tryLoop parses t body i req res (Inr resp # rest) sent =
         (Returns (Some resp, None), rest, sent @ [attempt i req body])"
  using assms
  by (subst tryLoop.simps) (simp add: copyRequest_parses scripted_def attempt_def)

lemma tryLoop_exhausted: "maxTries t \<le> i \<Longrightarrow> tryLoop parses t body i req res s sent = (Returns res, s, sent)"
  by (subst tryLoop.simps) simp

lemma tryLoop_retryable_run:
  assumes "RoundTripper t = scripted" and "parses (URL req)"
    and "\<forall>r \<in> set rs. retryable (StatusCode r)"
    and "i + int (length rs) \<le> maxTries t" and "1 \<le> i"
  shows "tryLoop parses t body i req res (map Inr rs @ rest) sent =
         tryLoop parses t body (i + int (length rs))
           (if rs = [] then req else rebuilt req body)
           (if rs = [] then res else (Some (closeBody (last rs)), None))
           rest (sent @ replicate (length rs) (rebuilt req body))"
  using assms
proof (induction rs arbitrary: i req res sent)
  case Nil
  then show ?case by simp
next
  case (Cons r rs)
  have step: "tryLoop parses t body i req res (map Inr (r # rs) @ rest) sent =
      tryLoop parses t body (i + 1) (rebuilt req body) (Some (closeBody r), None)
        (map Inr rs @ rest) (sent @ [rebuilt req body])"
    using tryLoop_retry_step [of t parses req i r body res "map Inr rs @ rest" sent] Cons.prems
    by (simp add: attempt_def)
  have run: "tryLoop parses t body (i + 1) (rebuilt req body) (Some (closeBody r), None)
        (map Inr rs @ rest) (sent @ [rebuilt req body]) =
      tryLoop parses t body (i + 1 + int (length rs))
        (if rs = [] then rebuilt req body else rebuilt (rebuilt req body) body)
        (if rs = [] then (Some (closeBody r), None) else (Some (closeBody (last rs)), None))
        rest ((sent @ [rebuilt req body]) @ replicate (length rs) (rebuilt (rebuilt req body) body))"
    using Cons.prems by (intro Cons.IH) auto
  show ?case
    unfolding step run by (simp add: replicate_append_same add.assoc)
qed

lemma tryLoop_sent_prefix:
  "\<exists>more. snd (snd (tryLoop parses t body i req res s sent)) = sent @ more"
proof (induction parses t body i req res s sent rule: tryLoop.induct)
  case (1 parses t body i req res s sent)
  show ?case
  proof (cases "i < maxTries t")
    case False
    then show ?thesis by (subst tryLoop.simps) simp
  next
    case True
    note lt = this
    show ?thesis
    proof (cases "if i \<noteq> 0 then copyRequest parses req body else Returns req")
      case (Panics p)
      with lt show ?thesis by (subst tryLoop.simps) simp
    next
      case (Returns req')
      obtain out s' where rt: "RoundTripper t s req' = (out, s')"
        by (cases "RoundTripper t s req'")
      show ?thesis
      proof (cases out)
        case (Inl err)
        from "1.IH"(1) [OF lt Returns rt [symmetric] Inl]
        obtain more where "snd (snd (tryLoop parses t body (i + 1) req' (None, Some err) s'
            (sent @ [req']))) = (sent @ [req']) @ more" by blast
        with lt Returns rt Inl show ?thesis
          by (subst tryLoop.simps) simp
      next
        case (Inr resp)
        show ?thesis
        proof (cases "retryable (StatusCode resp)")
          case False
          with lt Returns rt Inr show ?thesis
            by (subst tryLoop.simps) simp
        next
          case True
          then have "\<not> \<not> retryable (StatusCode resp)" by simp
          from "1.IH"(2) [OF lt Returns rt [symmetric] Inr this]
          obtain more where "snd (snd (tryLoop parses t body (i + 1) req'
              (Some (resp\<lparr> RespBody := Close (RespBody resp) \<rparr>), None) s'
              (sent @ [req']))) = (sent @ [req']) @ more" by blast
          with lt Returns rt Inr True show ?thesis
            by (subst tryLoop.simps) simp
        qed
      qed
    qed
  qed
qed

lemma tryLoop_attempt_sent:
  assumes "i < maxTries t"
    and "(if i \<noteq> 0 then copyRequest parses req body else Returns req) = Returns req'"
  shows "\<exists>more. snd (snd (tryLoop parses t body i req res s sent)) = sent @ req' # more"
proof -
  obtain out s' where rt: "RoundTripper t s req' = (out, s')"
    by (cases "RoundTripper t s req'")
  show ?thesis
  proof (cases out)
    case (Inl err)
    obtain more where "snd (snd (tryLoop parses t body (i + 1) req' (None, Some err) s'
        (sent @ [req']))) = (sent @ [req']) @ more"
      using tryLoop_sent_prefix [of parses t body "i + 1" req' "(None, Some err)" s' "sent @ [req']"]
      by blast
    with assms rt Inl show ?thesis
      by (subst tryLoop.simps) simp
  next
    case (Inr resp)
    obtain more where "snd (snd (tryLoop parses t body (i + 1) req'
        (Some (resp\<lparr> RespBody := Close (RespBody resp) \<rparr>), None) s'
        (sent @ [req']))) = (sent @ [req']) @ more"
      using tryLoop_sent_prefix [of parses t body "i + 1" req'
          "(Some (resp\<lparr> RespBody := Close (RespBody resp) \<rparr>), None)" s' "sent @ [req']"]
      by blast
    with assms rt Inr show ?thesis
      by (subst tryLoop.simps) simp
  qed
qed

lemmas example_defs = upload_req_def busy_resp_def ok_resp_def five_tries_def bytes_NewReader_def

text \<open>
  When the first attempts yield retryable codes and the next one does not, the call
  returns that response as it came and has sent one request per outcome.  The first
  request is the caller's own, whose body the buffering has already read to the end;
  every later request is rebuilt and carries the buffered body.
\<close>

lemma retries_then_success:
  assumes "RoundTripper t = scripted"
    and "parses (URL req)"
    and "Body req = None \<or> (\<exists>rd. Body req = Some rd \<and> \<not> closed rd \<and> readErr rd = None)"
    and "\<forall>r \<in> set rs. retryable (StatusCode r)"
    and "\<not> retryable (StatusCode final)"
    and "int (length rs) < maxTries t"
  shows "RoundTrip parses t req (map Inr rs @ Inr final # rest) =
           (Returns (Some final, None), rest,
            drained req # replicate (length rs) (rebuilt req (carried req)))"
proof (cases rs)
  case Nil
  then show ?thesis
    using tryLoop_stop_step [of t parses "drained req" 0 final "carried req" "(None, None)" rest "[]"]
      assms
    by (simp add: RoundTrip_enters_loop attempt_def)
next
  case (Cons r rs')
  let ?b = "carried req"
  have first: "tryLoop parses t ?b 0 (drained req) (None, None) (map Inr rs @ Inr final # rest) [] =
      tryLoop parses t ?b 1 (drained req) (Some (closeBody r), None)
        (map Inr rs' @ Inr final # rest) [drained req]"
    using tryLoop_retry_step [of t parses "drained req" 0 r ?b "(None, None)"
        "map Inr rs' @ Inr final # rest" "[]"] assms
    by (simp add: Cons attempt_def)
  have run: "tryLoop parses t ?b 1 (drained req) (Some (closeBody r), None)
        (map Inr rs' @ Inr final # rest) [drained req] =
      tryLoop parses t ?b (1 + int (length rs'))
        (if rs' = [] then drained req else rebuilt (drained req) ?b)
        (if rs' = [] then (Some (closeBody r), None) else (Some (closeBody (last rs')), None))
        (Inr final # rest) ([drained req] @ replicate (length rs') (rebuilt (drained req) ?b))"
    using assms by (intro tryLoop_retryable_run) (auto simp: Cons)
  have stop: "tryLoop parses t ?b (1 + int (length rs')) rq rs0 (Inr final # rest) snt =
      (Returns (Some final, None), rest, snt @ [rebuilt req ?b])"
    if "rq = drained req \<or> rq = rebuilt req ?b" for rq rs0 snt
    using tryLoop_stop_step [of t parses rq "1 + int (length rs')" final ?b rs0 rest snt] assms that
    by (auto simp: Cons attempt_def)
  have rq: "(if rs' = [] then drained req else rebuilt (drained req) ?b) = drained req
      \<or> (if rs' = [] then drained req else rebuilt (drained req) ?b) = rebuilt req ?b"
    by simp
  show ?thesis
    unfolding RoundTrip_enters_loop [OF assms(3)] first run stop [OF rq]
    by (simp add: Cons replicate_append_same)
qed

text \<open>
  Claim C3 fails on the code.  A request with body \<^verbatim>\<open>abc\<close> meets a 503 and then a
  200: the call returns the 200 after two attempts, but the first attempt carries an
  empty body (the stream was emptied by \<^verbatim>\<open>ioutil.ReadAll\<close> and the request is only
  rebuilt from the second iteration on) and the second carries \<^verbatim>\<open>abc\<close>.
\<close>

theorem first_attempt_carries_drained_body:
  "RoundTrip (\<lambda>u. True) five_tries upload_req [Inr busy_resp, Inr ok_resp]
     = (Returns (Some ok_resp, None), [], [upload_req\<lparr> Body := Some (bytes_NewReader []) \<rparr>, upload_req])
   \<and> map carried [upload_req\<lparr> Body := Some (bytes_NewReader []) \<rparr>, upload_req] = [[], ''abc'']
   \<and> retryable (StatusCode busy_resp) \<and> \<not> retryable (StatusCode ok_resp)"
  by (simp add: RoundTrip_def ReadAll_def tryLoop.simps scripted_def copyRequest_def
      http_NewRequest_def retryable_iff carried_def Close_def example_defs)

text \<open>
  Claim C5.  The retryable codes are exactly 403, 500, 502, 503 and 504.  In an iteration
  of the loop whose attempt yields a response: a retryable code closes the response body
  and the loop goes on to the next iteration, and when a try is left the request is
  rebuilt with the same method, URL, headers and the buffered body and sent as the next
  attempt; any other code ends the loop at once with that response, unchanged, and no
  further request is sent.
\<close>

theorem retryable_set_and_loop_step:
  assumes "0 \<le> i" and "i < maxTries t"
    and "(if i \<noteq> 0 then copyRequest parses req body else Returns req) = Returns req'"
    and "RoundTripper t s req' = (Inr resp, s')"
  shows "(retryable code = (code \<in> {403, 500, 502, 503, 504}))
       \<and> (retryable (StatusCode resp) \<longrightarrow>
            tryLoop parses t body i req res s sent =
              tryLoop parses t body (i + 1) req'
                (Some (resp\<lparr> RespBody := Close (RespBody resp) \<rparr>), None) s' (sent @ [req']))
       \<and> (retryable (StatusCode resp) \<and> i + 1 < maxTries t
            \<and> copyRequest parses req' body = Returns req'' \<longrightarrow>
            (\<exists>more. snd (snd (tryLoop parses t body i req res s sent)) = sent @ req' # req'' # more)
            \<and> Method req'' = Method req' \<and> URL req'' = URL req' \<and> Header req'' = Header req'
            \<and> carried req'' = body)
       \<and> (\<not> retryable (StatusCode resp) \<longrightarrow>
            tryLoop parses t body i req res s sent = (Returns (Some resp, None), s', sent @ [req']))"
proof -
  have codes: "retryable code = (code \<in> {403, 500, 502, 503, 504})"
    by (simp add: retryable_iff)
  have retry: "tryLoop parses t body i req res s sent =
      tryLoop parses t body (i + 1) req'
        (Some (resp\<lparr> RespBody := Close (RespBody resp) \<rparr>), None) s' (sent @ [req'])"
    if "retryable (StatusCode resp)"
    using assms that by (subst tryLoop.simps) simp
  have stop: "tryLoop parses t body i req res s sent = (Returns (Some resp, None), s', sent @ [req'])"
    if "\<not> retryable (StatusCode resp)"
    using assms that by (subst tryLoop.simps) simp
  have again: "\<exists>more. snd (snd (tryLoop parses t body i req res s sent)) = sent @ req' # req'' # more"
    if r: "retryable (StatusCode resp)" and lt: "i + 1 < maxTries t"
      and c: "copyRequest parses req' body = Returns req''"
  proof -
    have "(if i + 1 \<noteq> 0 then copyRequest parses req' body else Returns req') = Returns req''"
      using assms(1) c by simp
    from tryLoop_attempt_sent [OF lt this]
    obtain more where "snd (snd (tryLoop parses t body (i + 1) req'
        (Some (resp\<lparr> RespBody := Close (RespBody resp) \<rparr>), None) s' (sent @ [req'])))
        = (sent @ [req']) @ req'' # more"
      by blast
    then show ?thesis
      unfolding retry [OF r] by auto
  qed
  have fresh: "Method req'' = Method req' \<and> URL req'' = URL req' \<and> Header req'' = Header req'
      \<and> carried req'' = body"
    if "copyRequest parses req' body = Returns req''"
    using copyRequest_Returns [OF that] by (simp add: rebuilt_fields)
  from codes retry stop again fresh show ?thesis
    by blast
qed

theorem retryable_set_and_loop_step_witness:
  "tryLoop (\<lambda>u. True) five_tries ''abc'' 0 upload_req (None, None) [Inr busy_resp, Inr ok_resp] []
     = tryLoop (\<lambda>u. True) five_tries ''abc'' 1 upload_req
         (Some (busy_resp\<lparr> RespBody := Close (RespBody busy_resp) \<rparr>), None) [Inr ok_resp] [upload_req]
   \<and> (\<exists>more. snd (snd (tryLoop (\<lambda>u. True) five_tries ''abc'' 0 upload_req (None, None)
                          [Inr busy_resp, Inr ok_resp] []))
          = upload_req # upload_req # more)
   \<and> tryLoop (\<lambda>u. True) five_tries ''abc'' 0 upload_req (None, None) [Inr ok_resp, Inr busy_resp] []
     = (Returns (Some ok_resp, None), [Inr busy_resp], [upload_req])"
proof -
  have lt: "(0::int) \<le> 0" "0 < maxTries five_tries" "(0::int) + 1 < maxTries five_tries"
    by (simp_all add: five_tries_def)
  have rq: "(if (0::int) \<noteq> 0 then copyRequest (\<lambda>u. True) upload_req ''abc''
             else Returns upload_req) = Returns upload_req"
    by simp
  have cp: "copyRequest (\<lambda>u. True) upload_req ''abc'' = Returns upload_req"
    by (simp add: copyRequest_def http_NewRequest_def example_defs)
  have rt1: "RoundTripper five_tries [Inr busy_resp, Inr ok_resp] upload_req = (Inr busy_resp, [Inr ok_resp])"
    and rt2: "RoundTripper five_tries [Inr ok_resp, Inr busy_resp] upload_req = (Inr ok_resp, [Inr busy_resp])"
    by (simp_all add: five_tries_def scripted_def)
  have r1: "retryable (StatusCode busy_resp)" and r2: "\<not> retryable (StatusCode ok_resp)"
    by (simp_all add: retryable_iff busy_resp_def ok_resp_def)
  note w1 = retryable_set_and_loop_step [OF lt(1) lt(2) rq rt1, where code = 503
      and res = "(None, None)" and sent = "[]" and req'' = upload_req]
  note w2 = retryable_set_and_loop_step [OF lt(1) lt(2) rq rt2, where code = 503
      and res = "(None, None)" and sent = "[]" and req'' = upload_req]
  have "tryLoop (\<lambda>u. True) five_tries ''abc'' 0 upload_req (None, None)
          [Inr busy_resp, Inr ok_resp] []
     = tryLoop (\<lambda>u. True) five_tries ''abc'' (0 + 1) upload_req
         (Some (busy_resp\<lparr> RespBody := Close (RespBody busy_resp) \<rparr>), None) [Inr ok_resp]
         ([] @ [upload_req])"
    using w1 r1 by blast
  moreover have "\<exists>more. snd (snd (tryLoop (\<lambda>u. True) five_tries ''abc'' 0 upload_req (None, None)
                          [Inr busy_resp, Inr ok_resp] []))
          = [] @ upload_req # upload_req # more"
    using w1 r1 lt(3) cp by blast
  moreover have "tryLoop (\<lambda>u. True) five_tries ''abc'' 0 upload_req (None, None)
          [Inr ok_resp, Inr busy_resp] []
     = (Returns (Some ok_resp, None), [Inr busy_resp], [] @ [upload_req])"
    using w2 r2 by blast
  ultimately show ?thesis by simp
qed

text \<open>
  Claim C4, as stated, fails.  Five 503 responses in a row with five tries: the call makes
  five attempts and returns the last response, but with its body closed, which is not
  the response the wrapped transport returned.
\<close>

theorem exhausted_response_has_closed_body:
  "fst (RoundTrip (\<lambda>u. True) five_tries upload_req [Inr busy_resp, Inr busy_resp, Inr busy_resp, Inr busy_resp, Inr busy_resp])
     = Returns (Some (busy_resp\<lparr> RespBody := (RespBody busy_resp)\<lparr> closed := True \<rparr> \<rparr>), None)
   \<and> busy_resp\<lparr> RespBody := (RespBody busy_resp)\<lparr> closed := True \<rparr> \<rparr> \<noteq> busy_resp
   \<and> length (snd (snd (RoundTrip (\<lambda>u. True) five_tries upload_req
                          [Inr busy_resp, Inr busy_resp, Inr busy_resp, Inr busy_resp, Inr busy_resp]))) = 5"
  by (simp add: RoundTrip_def ReadAll_def tryLoop.simps scripted_def copyRequest_def
      http_NewRequest_def retryable_iff carried_def Close_def example_defs)

text \<open>
  Claim C4, amended.  For a request whose body can be buffered and whose URL parses
  again, when the first \<open>maxTries\<close> outcomes of the wrapped transport are all responses
  with retryable codes, the call makes exactly \<open>maxTries\<close> attempts and returns the last
  of these responses with its body closed and nothing else changed, without an error.
\<close>

theorem retries_exhausted_returns_last:
  assumes "RoundTripper t = scripted"
    and "parses (URL req)"
    and "Body req = None \<or> (\<exists>rd. Body req = Some rd \<and> \<not> closed rd \<and> readErr rd = None)"
    and "1 \<le> maxTries t"
    and "int (length rs) = maxTries t"
    and "\<forall>r \<in> set rs. retryable (StatusCode r)"
  shows "RoundTrip parses t req (map Inr rs @ rest) =
           (Returns (Some ((last rs)\<lparr> RespBody := Close (RespBody (last rs)) \<rparr>), None), rest,
            drained req # replicate (length rs - 1) (rebuilt req (carried req)))
         \<and> int (length (snd (snd (RoundTrip parses t req (map Inr rs @ rest))))) = maxTries t"
proof -
  from assms(4,5) obtain r rs' where rs: "rs = r # rs'"
    by (cases rs) auto
  let ?b = "carried req"
  have first: "tryLoop parses t ?b 0 (drained req) (None, None) (map Inr rs @ rest) [] =
      tryLoop parses t ?b 1 (drained req) (Some (closeBody r), None) (map Inr rs' @ rest)
        [drained req]"
    using tryLoop_retry_step [of t parses "drained req" 0 r ?b "(None, None)"
        "map Inr rs' @ rest" "[]"] assms(1,2,4,6)
    by (simp add: rs attempt_def)
  have run: "tryLoop parses t ?b 1 (drained req) (Some (closeBody r), None)
        (map Inr rs' @ rest) [drained req] =
      tryLoop parses t ?b (1 + int (length rs'))
        (if rs' = [] then drained req else rebuilt (drained req) ?b)
        (if rs' = [] then (Some (closeBody r), None) else (Some (closeBody (last rs')), None))
        rest ([drained req] @ replicate (length rs') (rebuilt (drained req) ?b))"
    using assms(1,2,5,6) by (intro tryLoop_retryable_run) (auto simp: rs)
  have fin: "tryLoop parses t ?b (1 + int (length rs')) rq rs0 rest snt = (Returns rs0, rest, snt)"
    for rq rs0 snt
    using assms(5) by (intro tryLoop_exhausted) (simp add: rs)
  have res: "(if rs' = [] then (Some (closeBody r), None) else (Some (closeBody (last rs')), None))
      = (Some ((last rs)\<lparr> RespBody := Close (RespBody (last rs)) \<rparr>), None)"
    by (simp add: rs closeBody_def)
  have "RoundTrip parses t req (map Inr rs @ rest) =
      (Returns (Some ((last rs)\<lparr> RespBody := Close (RespBody (last rs)) \<rparr>), None), rest,
       drained req # replicate (length rs - 1) (rebuilt req (carried req)))"
    unfolding RoundTrip_enters_loop [OF assms(3)] first run fin res by (simp add: rs)
  then show ?thesis
    using assms(5) by (simp add: rs)
qed

theorem retries_exhausted_returns_last_witness:
  "RoundTrip (\<lambda>u. True) five_tries upload_req
       (map Inr [busy_resp, busy_resp, busy_resp, busy_resp, busy_resp] @ [Inr ok_resp])
     = (Returns (Some (busy_resp\<lparr> RespBody := Close (RespBody busy_resp) \<rparr>), None), [Inr ok_resp],
        [upload_req\<lparr> Body := Some (bytes_NewReader []) \<rparr>,
         upload_req, upload_req, upload_req, upload_req])
   \<and> maxTries five_tries = 5"
proof -
  have a: "RoundTripper five_tries = scripted"
    by (simp add: five_tries_def)
  have b: "(\<lambda>u. True) (URL upload_req)"
    by simp
  have c: "Body upload_req = None
       \<or> (\<exists>rd. Body upload_req = Some rd \<and> \<not> closed rd \<and> readErr rd = None)"
    by (simp add: example_defs)
  have d: "1 \<le> maxTries five_tries"
    by (simp add: five_tries_def)
  have e: "int (length [busy_resp, busy_resp, busy_resp, busy_resp, busy_resp]) = maxTries five_tries"
    by (simp add: five_tries_def)
  have f: "\<forall>r \<in> set [busy_resp, busy_resp, busy_resp, busy_resp, busy_resp]. retryable (StatusCode r)"
    by (simp add: retryable_iff busy_resp_def)
  have g: "drained upload_req = upload_req\<lparr> Body := Some (bytes_NewReader []) \<rparr>"
    and h: "rebuilt upload_req (carried upload_req) = upload_req"
    by (simp_all add: drained_def rebuilt_def carried_def upload_req_def bytes_NewReader_def)
  from retries_exhausted_returns_last [OF a b c d e f, of "[Inr ok_resp]"]
  show ?thesis
    by (simp add: g h five_tries_def numeral_eq_Suc)
qed

section \<open>Properties of the worker\<close>

lemmas world_defs = ok_world_def no_object_world_def no_download_world_def
  convert_fails_world_def upload_fails_world_def

lemmas worker_eval = fetchFails_def processImage_def getImageBytes_def world_defs eiffel_req_def
  ReadAll_def bytes_NewReader_def leave_def Let_def moderateCommand_def

lemma getImageBytes_fetchFails:
  "fetchFails w \<Longrightarrow>
   \<exists>m evs. getImageBytes w bucket fname = (Panics (LogPanic m), evs)
     \<and> Log m \<in> set evs \<and> (\<forall>e \<in> set evs. \<not> isExec e \<and> \<not> isInsert e)"
  by (auto simp: fetchFails_def getImageBytes_def isExec_def isInsert_def
           split: sum.splits)

lemma getImageBytes_fetched:
  "\<not> fetchFails w \<Longrightarrow>
   \<exists>b evs. getImageBytes w bucket fname = (Returns b, evs)
     \<and> (\<forall>e \<in> set evs. \<not> isExec e \<and> \<not> isInsert e)"
  by (auto simp: fetchFails_def getImageBytes_def isExec_def isInsert_def
           split: sum.splits)

lemma runDeferred_unfold:
  "fst (runDeferred (DeferRemove n # ds) fs) = fst (runDeferred ds (fs(n := None)))"
  "snd (runDeferred (DeferRemove n # ds) fs) = Remove n # snd (runDeferred ds (fs(n := None)))"
  "fst (runDeferred (DeferClose n # ds) fs) = fst (runDeferred ds fs)"
  "snd (runDeferred (DeferClose n # ds) fs) = CloseFile n # snd (runDeferred ds fs)"
  by (simp_all split: prod.splits)

lemma runDeferred_keeps_absent:
  "fs n = None \<Longrightarrow> fst (runDeferred ds fs) n = None"
proof (induction ds arbitrary: fs)
  case Nil
  then show ?case by simp
next
  case (Cons d ds)
  then show ?case
    by (cases d) (simp_all add: runDeferred_unfold del: runDeferred.simps)
qed

lemma runDeferred_removes:
  "DeferRemove n \<in> set ds \<Longrightarrow> fst (runDeferred ds fs) n = None"
proof (induction ds arbitrary: fs)
  case Nil
  then show ?case by simp
next
  case (Cons d ds)
  show ?case
  proof (cases "d = DeferRemove n")
    case True
    then show ?thesis
      by (simp add: runDeferred_unfold runDeferred_keeps_absent del: runDeferred.simps)
  next
    case False
    with Cons.prems have "DeferRemove n \<in> set ds" by simp
    from Cons.IH [OF this] show ?thesis
      by (cases d) (simp_all add: runDeferred_unfold del: runDeferred.simps)
  qed
qed

lemma runDeferred_logs_removal:
  "DeferRemove n \<in> set ds \<Longrightarrow> Remove n \<in> set (snd (runDeferred ds fs))"
proof (induction ds arbitrary: fs)
  case Nil
  then show ?case by simp
next
  case (Cons d ds)
  then show ?case
    by (cases d) (auto simp: runDeferred_unfold simp del: runDeferred.simps)
qed

lemma runDeferred_events:
  "e \<in> set (snd (runDeferred ds fs)) \<Longrightarrow> \<not> isExec e \<and> \<not> isInsert e"
proof (induction ds arbitrary: fs)
  case Nil
  then show ?case by simp
next
  case (Cons d ds)
  then show ?case
    by (cases d) (auto simp: runDeferred_unfold isExec_def isInsert_def simp del: runDeferred.simps)
qed

lemma leave_parts:
  "fst (leave out ds fs evs) = out"
  "fst (snd (leave out ds fs evs)) = fst (runDeferred ds fs)"
  "snd (snd (leave out ds fs evs)) = evs @ snd (runDeferred ds fs)"
  by (simp_all add: leave_def split: prod.splits)

text \<open>Once the input has been staged, every way out of processImage goes through the
  deferred calls, and the removal of the input is among them.\<close>

lemma processImage_staged:
  assumes "getImageBytes w (sourceBucket r) (filename r) = (Returns b, evs)"
    and "writeFile w = None"
  shows "\<exists>out ds fs' evs'. processImage r w fs = leave out ds fs' evs'
           \<and> DeferRemove (filename r) \<in> set ds
           \<and> (snd (combinedOutput w) \<noteq> None \<longrightarrow>
                out = Returns (snd (combinedOutput w))
                \<and> evs' = evs @ [Log (ReadBytes (length b)), WriteFile (filename r),
                                Exec (moderateCommand (filename r) (saveToFilename r)),
                                Log (CouldNotTransform (fst (combinedOutput w)))])"
proof (cases "snd (combinedOutput w)")
  case (Some err)
  with assms show ?thesis
    by (simp add: processImage_def Let_def)
       (intro exI [of _ "[DeferRemove (filename r)]"] exI conjI refl; simp)
next
  case None
  note conv = this
  show ?thesis
  proof (cases "osOpen w")
    case (Some err)
    with assms conv show ?thesis
      by (simp add: processImage_def Let_def)
         (intro exI [of _ "[DeferRemove (saveToFilename r), DeferRemove (filename r)]"]
            exI conjI refl; simp)
  next
    case None
    note opened = this
    show ?thesis
    proof (cases "objectsInsertDo w")
      case (Inl err)
      with assms conv opened show ?thesis
        by (simp add: processImage_def Let_def)
           (intro exI [of _ "[DeferClose (saveToFilename r), DeferRemove (saveToFilename r),
                              DeferRemove (filename r)]"] exI conjI refl; simp)
    next
      case (Inr res)
      with assms conv opened show ?thesis
        by (simp add: processImage_def Let_def)
           (intro exI [of _ "[DeferClose (saveToFilename r), DeferRemove (saveToFilename r),
                              DeferRemove (filename r)]"] exI conjI refl; simp)
    qed
  qed
qed

text \<open>
  Claim C2, as stated, fails.  The metadata lookup of the first request fails: the worker
  runs neither the tool nor an upload, but the panic raised by \<^verbatim>\<open>getImageBytes\<close> leaves
  the loop, and the second request, which a worker would process, is never taken.
\<close>

theorem fetch_failure_ends_worker:
  "fetchFails no_object_world
   \<and> fst (process [(eiffel_req, no_object_world), (eiffel_req, ok_world)] Map.empty)
       = ProcessDown (LogPanic (UnableToGetObject ''eiffel.jpg'' ''googleapi: Error 404''))
   \<and> snd (snd (process [(eiffel_req, no_object_world), (eiffel_req, ok_world)] Map.empty))
       = [ObjectsGet ''in-bucket'' ''eiffel.jpg'',
          Log (UnableToGetObject ''eiffel.jpg'' ''googleapi: Error 404'')]
   \<and> fst (process [(eiffel_req, ok_world)] Map.empty) = AwaitingNext"
  by (simp add: fetchFails_def processImage_def getImageBytes_def world_defs eiffel_req_def
      ReadAll_def bytes_NewReader_def leave_def Let_def moderateCommand_def)

text \<open>
  Claim C2, amended.  When the fetch stage fails, the failure is logged and raised as a
  panic; no conversion command is run and no upload is attempted; the scratch files are
  untouched; the panic ends the worker's loop, whatever is queued behind the request.
\<close>

theorem fetch_failure_panics:
  assumes "fetchFails w"
  shows "\<exists>m evs. processImage r w fs = (Panics (LogPanic m), fs, evs)
           \<and> Log m \<in> set evs
           \<and> (\<forall>e \<in> set evs. \<not> isExec e \<and> \<not> isInsert e)
           \<and> process ((r, w) # q) fs = (ProcessDown (LogPanic m), fs, evs)"
proof -
  from getImageBytes_fetchFails [OF assms, of "sourceBucket r" "filename r"]
  obtain m evs where g: "getImageBytes w (sourceBucket r) (filename r) = (Panics (LogPanic m), evs)"
    and l: "Log m \<in> set evs" and n: "\<forall>e \<in> set evs. \<not> isExec e \<and> \<not> isInsert e"
    by blast
  have p: "processImage r w fs = (Panics (LogPanic m), fs, evs)"
    using g by (simp add: processImage_def)
  then have "process ((r, w) # q) fs = (ProcessDown (LogPanic m), fs, evs)"
    by simp
  with p l n show ?thesis by blast
qed

theorem fetch_failure_panics_witness:
  "fetchFails no_object_world
   \<and> (\<exists>m evs. process [(eiffel_req, no_object_world), (eiffel_req, ok_world)] Map.empty
                 = (ProcessDown (LogPanic m), Map.empty, evs)
               \<and> Log m \<in> set evs)"
proof -
  have f: "fetchFails no_object_world"
    by (simp add: worker_eval)
  from fetch_failure_panics [OF f, of eiffel_req Map.empty "[(eiffel_req, ok_world)]"] f
  show ?thesis by blast
qed

text \<open>
  Claim C9.  Once the input has been staged (fetch and write succeeded), the staged file
  is absent after processImage on every way out, by return or by panic, and its removal
  is among the events; when the conversion fails, no upload is attempted.
\<close>

theorem staged_input_is_removed:
  assumes "\<not> fetchFails w" and "writeFile w = None"
  shows "fst (snd (processImage r w fs)) (filename r) = None
       \<and> Remove (filename r) \<in> set (snd (snd (processImage r w fs)))
       \<and> (snd (combinedOutput w) \<noteq> None \<longrightarrow>
            (\<forall>e \<in> set (snd (snd (processImage r w fs))). \<not> isInsert e))"
proof -
  from getImageBytes_fetched [OF assms(1), of "sourceBucket r" "filename r"]
  obtain b evs where g: "getImageBytes w (sourceBucket r) (filename r) = (Returns b, evs)"
    and n: "\<forall>e \<in> set evs. \<not> isExec e \<and> \<not> isInsert e"
    by blast
  from processImage_staged [OF g assms(2), of fs]
  obtain out ds fs' evs' where p: "processImage r w fs = leave out ds fs' evs'"
    and d: "DeferRemove (filename r) \<in> set ds"
    and c: "snd (combinedOutput w) \<noteq> None \<longrightarrow>
              evs' = evs @ [Log (ReadBytes (length b)), WriteFile (filename r),
                            Exec (moderateCommand (filename r) (saveToFilename r)),
                            Log (CouldNotTransform (fst (combinedOutput w)))]"
    by blast
  have gone: "fst (snd (processImage r w fs)) (filename r) = None"
    unfolding p leave_parts using d by (rule runDeferred_removes)
  have logged: "Remove (filename r) \<in> set (snd (snd (processImage r w fs)))"
    unfolding p leave_parts using runDeferred_logs_removal [OF d] by simp
  have quiet: "\<forall>e \<in> set (snd (snd (processImage r w fs))). \<not> isInsert e"
    if "snd (combinedOutput w) \<noteq> None"
    unfolding p leave_parts using c that n runDeferred_events
    by (auto simp: isInsert_def)
  from gone logged quiet show ?thesis by blast
qed

theorem staged_input_is_removed_witness:
  "\<not> fetchFails convert_fails_world
   \<and> writeFile convert_fails_world = None
   \<and> snd (combinedOutput convert_fails_world) = Some ''exit status 1''
   \<and> fst (snd (processImage eiffel_req convert_fails_world Map.empty)) ''eiffel.jpg'' = None
   \<and> snd (snd (processImage eiffel_req convert_fails_world Map.empty))
       = [ObjectsGet ''in-bucket'' ''eiffel.jpg'',
          ClientGet ''https://storage.example/dl/eiffel.jpg'',
          CloseBody,
          Log (ReadBytes 4),
          WriteFile ''eiffel.jpg'',
          Exec [''convert'', ''eiffel.jpg'', ''-auto-orient'', ''-antialias'', ''-contrast'',
                ''-thumbnail'', ''100x100'', ''eiffel-t.jpg''],
          Log (CouldNotTransform ''convert: no decode delegate''),
          Remove ''eiffel.jpg'']"
proof -
  have f: "\<not> fetchFails convert_fails_world" and w: "writeFile convert_fails_world = None"
    by (simp_all add: worker_eval)
  have n: "filename eiffel_req = ''eiffel.jpg''"
    by (simp add: eiffel_req_def)
  from staged_input_is_removed [OF f w, of eiffel_req Map.empty]
  have "fst (snd (processImage eiffel_req convert_fails_world Map.empty)) ''eiffel.jpg'' = None"
    by (simp add: n)
  moreover have "snd (snd (processImage eiffel_req convert_fails_world Map.empty))
       = [ObjectsGet ''in-bucket'' ''eiffel.jpg'',
          ClientGet ''https://storage.example/dl/eiffel.jpg'',
          CloseBody,
          Log (ReadBytes 4),
          WriteFile ''eiffel.jpg'',
          Exec [''convert'', ''eiffel.jpg'', ''-auto-orient'', ''-antialias'', ''-contrast'',
                ''-thumbnail'', ''100x100'', ''eiffel-t.jpg''],
          Log (CouldNotTransform ''convert: no decode delegate''),
          Remove ''eiffel.jpg'']"
    by (simp add: worker_eval)
  moreover have "snd (combinedOutput convert_fails_world) = Some ''exit status 1''"
    by (simp add: worker_eval)
  ultimately show ?thesis using f w by simp
qed

text \<open>
  Claim C7, as stated, fails.  A download error is not caught at the worker's loop: it
  is a panic that ends the loop, no line is logged by the loop, and the request queued
  behind it is not processed.
\<close>

theorem download_failure_is_not_caught:
  "fetchFails no_download_world
   \<and> fst (process [(eiffel_req, no_download_world), (eiffel_req, ok_world)] Map.empty)
       = ProcessDown (LogPanic (UnableToDownload ''https://storage.example/dl/eiffel.jpg''
                                  ''connection refused''))
   \<and> snd (snd (process [(eiffel_req, no_download_world), (eiffel_req, ok_world)] Map.empty))
       = [ObjectsGet ''in-bucket'' ''eiffel.jpg'',
          ClientGet ''https://storage.example/dl/eiffel.jpg'',
          Log (UnableToDownload ''https://storage.example/dl/eiffel.jpg'' ''connection refused'')]"
  by (simp add: worker_eval)

text \<open>
  Claim C7, amended.  When the fetch succeeds and staging, conversion or opening the
  converted file fails, processImage returns the error, the loop logs it with the
  destination name, logs the duration, and goes on with the rest of the queue.  When the
  fetch fails, the failure is logged and raised as a panic, which is not caught: it ends
  the loop, whatever is queued behind the request.
\<close>

theorem scoped_errors_are_logged_and_skipped:
  "(\<not> fetchFails w
      \<and> (writeFile w \<noteq> None \<or> snd (combinedOutput w) \<noteq> None \<or> osOpen w \<noteq> None) \<longrightarrow>
      (\<exists>err fs' evs. processImage r w fs = (Returns (Some err), fs', evs)
         \<and> process ((r, w) # q) fs =
             (fst (process q fs'), fst (snd (process q fs')),
              evs @ [Log (CouldNotProcess (saveToFilename r) err), Log ProcessingTook]
                  @ snd (snd (process q fs')))))
   \<and> (fetchFails w \<longrightarrow>
        (\<exists>m evs. process ((r, w) # q) fs = (ProcessDown (LogPanic m), fs, evs)
           \<and> Log m \<in> set evs))"
proof (intro conjI impI)
  assume a: "\<not> fetchFails w
      \<and> (writeFile w \<noteq> None \<or> snd (combinedOutput w) \<noteq> None \<or> osOpen w \<noteq> None)"
  from getImageBytes_fetched [of w "sourceBucket r" "filename r"] a
  obtain b evs where g: "getImageBytes w (sourceBucket r) (filename r) = (Returns b, evs)"
    by blast
  have "\<exists>err fs' evs. processImage r w fs = (Returns (Some err), fs', evs)"
  proof (cases "writeFile w")
    case (Some err)
    with g show ?thesis by (simp add: processImage_def)
  next
    case None
    note staged = this
    show ?thesis
    proof (cases "snd (combinedOutput w)")
      case (Some err)
      with g staged show ?thesis
        by (simp add: processImage_def Let_def leave_def split: prod.splits)
    next
      case None
      with a staged obtain err where "osOpen w = Some err" by auto
      with g staged None show ?thesis
        by (simp add: processImage_def Let_def leave_def split: prod.splits)
    qed
  qed
  then obtain err fs' evs' where p: "processImage r w fs = (Returns (Some err), fs', evs')"
    by blast
  then have "process ((r, w) # q) fs =
               (fst (process q fs'), fst (snd (process q fs')),
                evs' @ [Log (CouldNotProcess (saveToFilename r) err), Log ProcessingTook]
                    @ snd (snd (process q fs')))"
    by (simp add: Let_def split: prod.splits)
  with p show "\<exists>err fs' evs. processImage r w fs = (Returns (Some err), fs', evs)
         \<and> process ((r, w) # q) fs =
             (fst (process q fs'), fst (snd (process q fs')),
              evs @ [Log (CouldNotProcess (saveToFilename r) err), Log ProcessingTook]
                  @ snd (snd (process q fs')))"
    by blast
next
  assume f: "fetchFails w"
  from getImageBytes_fetchFails [OF f, of "sourceBucket r" "filename r"]
  obtain m evs where g: "getImageBytes w (sourceBucket r) (filename r) = (Panics (LogPanic m), evs)"
    and l: "Log m \<in> set evs"
    by blast
  have "process ((r, w) # q) fs = (ProcessDown (LogPanic m), fs, evs)"
    using g by (simp add: processImage_def)
  with l show "\<exists>m evs. process ((r, w) # q) fs = (ProcessDown (LogPanic m), fs, evs)
      \<and> Log m \<in> set evs"
    by blast
qed

theorem scoped_errors_are_logged_and_skipped_witness:
  "\<not> fetchFails convert_fails_world
   \<and> snd (combinedOutput convert_fails_world) = Some ''exit status 1''
   \<and> (\<exists>fs' evs.
        processImage eiffel_req convert_fails_world Map.empty
          = (Returns (Some ''exit status 1''), fs', evs)
        \<and> process [(eiffel_req, convert_fails_world), (eiffel_req, ok_world)] Map.empty =
            (AwaitingNext, fst (snd (process [(eiffel_req, ok_world)] fs')),
             evs @ [Log (CouldNotProcess ''eiffel-t.jpg'' ''exit status 1''), Log ProcessingTook]
                 @ snd (snd (process [(eiffel_req, ok_world)] fs'))))
   \<and> fetchFails no_download_world
   \<and> (\<exists>m evs. process [(eiffel_req, no_download_world), (eiffel_req, ok_world)] Map.empty
                 = (ProcessDown (LogPanic m), Map.empty, evs)
               \<and> Log m \<in> set evs)"
proof -
  have f: "\<not> fetchFails convert_fails_world"
    and c: "snd (combinedOutput convert_fails_world) = Some ''exit status 1''"
    and d: "fetchFails no_download_world"
    by (simp_all add: worker_eval)
  then have h: "\<not> fetchFails convert_fails_world
      \<and> (writeFile convert_fails_world \<noteq> None
          \<or> snd (combinedOutput convert_fails_world) \<noteq> None
          \<or> osOpen convert_fails_world \<noteq> None)"
    by simp
  have alive: "fst (process [(eiffel_req, ok_world)] fs') = AwaitingNext" for fs'
    by (simp add: worker_eval split: prod.splits)
  have e: "fst (processImage eiffel_req convert_fails_world Map.empty)
      = Returns (Some ''exit status 1'')"
    by (simp add: worker_eval split: prod.splits)
  note scoped = scoped_errors_are_logged_and_skipped
      [of convert_fails_world eiffel_req Map.empty "[(eiffel_req, ok_world)]"]
  note fatal = scoped_errors_are_logged_and_skipped
      [of no_download_world eiffel_req Map.empty "[(eiffel_req, ok_world)]"]
  from scoped h
  obtain err fs' evs where
    p: "processImage eiffel_req convert_fails_world Map.empty = (Returns (Some err), fs', evs)"
    and q: "process [(eiffel_req, convert_fails_world), (eiffel_req, ok_world)] Map.empty =
      (fst (process [(eiffel_req, ok_world)] fs'), fst (snd (process [(eiffel_req, ok_world)] fs')),
       evs @ [Log (CouldNotProcess (saveToFilename eiffel_req) err), Log ProcessingTook]
           @ snd (snd (process [(eiffel_req, ok_world)] fs')))"
    by blast
  from p e have err: "err = ''exit status 1''" by simp
  have s: "saveToFilename eiffel_req = ''eiffel-t.jpg''"
    by (simp add: eiffel_req_def)
  have first: "\<exists>fs' evs.
        processImage eiffel_req convert_fails_world Map.empty
          = (Returns (Some ''exit status 1''), fs', evs)
        \<and> process [(eiffel_req, convert_fails_world), (eiffel_req, ok_world)] Map.empty =
            (AwaitingNext, fst (snd (process [(eiffel_req, ok_world)] fs')),
             evs @ [Log (CouldNotProcess ''eiffel-t.jpg'' ''exit status 1''), Log ProcessingTook]
                 @ snd (snd (process [(eiffel_req, ok_world)] fs')))"
    using p q unfolding err s alive by blast
  have second: "\<exists>m evs. process [(eiffel_req, no_download_world), (eiffel_req, ok_world)] Map.empty
                 = (ProcessDown (LogPanic m), Map.empty, evs)
               \<and> Log m \<in> set evs"
    using fatal d by blast
  from f c first d second show ?thesis by blast
qed

text \<open>
  A failed upload call is logged, but the next statement reads the name of the object
  the call did not return: a nil dereference, which ends the loop like any panic.
\<close>

lemma upload_failure_dereferences_nil:
  assumes "\<not> fetchFails w" and "writeFile w = None" and "snd (combinedOutput w) = None"
    and "osOpen w = None" and "objectsInsertDo w = Inl err"
  shows "fst (processImage r w fs) = Panics NilDereference
       \<and> fst (process ((r, w) # q) fs) = ProcessDown NilDereference
       \<and> Log (UnableToUpload (saveToFilename r)) \<in> set (snd (snd (processImage r w fs)))"
proof -
  from getImageBytes_fetched [OF assms(1), of "sourceBucket r" "filename r"]
  obtain b evs where g: "getImageBytes w (sourceBucket r) (filename r) = (Returns b, evs)"
    by blast
  with assms(2-5) show ?thesis
    by (simp add: processImage_def Let_def leave_def split: prod.splits)
qed

end
